theory Spec2Isabelle
  imports Main
begin

section \<open>Python strings\<close>

text \<open>
  A Python \<open>str\<close> is modelled as a \<open>string\<close> whose characters are the code points
  below 256, and a \<open>bytes\<close> object as a \<open>string\<close> whose characters are its bytes.  The
  character predicates below are those of CPython on that range.
\<close>

definition NL :: char where
  "NL = CHR 0x0A"

definition TAB :: char where
  "TAB = CHR 0x09"

definition SP :: char where
  "SP = CHR 0x20"

text \<open>\<open>str.isspace\<close>, also the class \<open>\s\<close> of \<open>re\<close> and what \<open>strip()\<close> and \<open>split()\<close> remove.\<close>

definition isspace :: "char \<Rightarrow> bool" where
  "isspace c = (let n = (of_char c :: int) in
     (9 \<le> n \<and> n \<le> 13) \<or> (28 \<le> n \<and> n \<le> 32) \<or> n = 133 \<or> n = 160)"

text \<open>\<open>str.isupper\<close> on one character: the ASCII capitals and the Latin-1 capitals.\<close>

definition isupper :: "char \<Rightarrow> bool" where
  "isupper c = (let n = (of_char c :: int) in
     (65 \<le> n \<and> n \<le> 90) \<or> (192 \<le> n \<and> n \<le> 214) \<or> (216 \<le> n \<and> n \<le> 222))"

definition strip :: "string \<Rightarrow> string" where
  "strip s = rev (dropWhile isspace (rev (dropWhile isspace s)))"

text \<open>\<open>s.split(c)\<close> for a one-character separator: never empty.\<close>

fun split_on :: "char \<Rightarrow> string \<Rightarrow> string list" where
  "split_on c [] = [[]]"
| "split_on c (x # xs) =
     (if x = c then [] # split_on c xs
      else (case split_on c xs of
              [] \<Rightarrow> [[x]]
            | w # ws \<Rightarrow> (x # w) # ws))"

text \<open>\<open>s.split()\<close>: the maximal runs of non-whitespace characters.\<close>

fun split_ws_from :: "string \<Rightarrow> string \<Rightarrow> string list" where
  "split_ws_from cur [] = (if cur = [] then [] else [cur])"
| "split_ws_from cur (c # cs) =
     (if isspace c then (if cur = [] then split_ws_from [] cs else cur # split_ws_from [] cs)
      else split_ws_from (cur @ [c]) cs)"

definition split_ws :: "string \<Rightarrow> string list" where
  "split_ws s = split_ws_from [] s"

text \<open>\<open>sep.join(xs)\<close>.\<close>

fun join :: "string \<Rightarrow> string list \<Rightarrow> string" where
  "join sep [] = []"
| "join sep [x] = x"
| "join sep (x # y # ys) = x @ sep @ join sep (y # ys)"

text \<open>\<open>sub in s\<close> and \<open>s.startswith(sub)\<close>.\<close>

definition startswith :: "string \<Rightarrow> string \<Rightarrow> bool" where
  "startswith s sub = (take (length sub) s = sub)"

fun contains :: "string \<Rightarrow> string \<Rightarrow> bool" where
  "contains sub [] = (sub = [])"
| "contains sub (c # cs) = (startswith (c # cs) sub \<or> contains sub cs)"

text \<open>\<open>re.sub(r'\s+', ' ', s)\<close>: every maximal run of whitespace becomes one space.  The
  flag says that the previous character belonged to a run.\<close>

fun collapse_ws :: "bool \<Rightarrow> string \<Rightarrow> string" where
  "collapse_ws in_run [] = []"
| "collapse_ws in_run (c # cs) =
     (if isspace c then (if in_run then collapse_ws True cs else SP # collapse_ws True cs)
      else c # collapse_ws False cs)"

text \<open>Decimal numerals, for the messages.\<close>

function show_nat :: "nat \<Rightarrow> string" where
  "show_nat n = (if n < 10 then [''0123456789'' ! n]
                 else show_nat (n div 10) @ [''0123456789'' ! (n mod 10)])"
  by pat_completeness auto
termination
  by (relation "measure id") auto

declare show_nat.simps [simp del]

section \<open>Exceptions\<close>

text \<open>
  The exceptions the code raises or lets through, each with what \<open>str(e)\<close> needs:
  the message; for an \<open>UnboundLocalError\<close> the variable that was read before any
  assignment; for an \<open>AttributeError\<close> the type of the object and the attribute it
  lacks.  \<open>LibraryError\<close> is an exception raised inside pdfplumber.
\<close>

datatype exn =
    ValueError string
  | UnboundLocalError string
  | AttributeError string string
  | LibraryError string
  | Exception string

definition quoted :: "string \<Rightarrow> string" where
  "quoted s = [CHR 0x27] @ s @ [CHR 0x27]"

fun str_exn :: "exn \<Rightarrow> string" where
  "str_exn (ValueError m) = m"
| "str_exn (UnboundLocalError v) =
     ''cannot access local variable '' @ quoted v
       @ '' where it is not associated with a value''"
| "str_exn (AttributeError t a) =
     quoted t @ '' object has no attribute '' @ quoted a"
| "str_exn (LibraryError m) = m"
| "str_exn (Exception m) = m"

section \<open>PDFProcessor\<close>

definition max_file_size :: nat where
  "max_file_size = 50 * 1024 * 1024"

text \<open>
  \<open>f"{x:.1f}"\<close> for \<open>x = n/1024/1024\<close>: the quotient is exact in binary floating point
  (for \<open>n < 2^53\<close>), and the format rounds it to one decimal, ties to the even digit.
\<close>

definition round_half_even :: "nat \<Rightarrow> nat \<Rightarrow> nat" where
  "round_half_even a b =
     (let q = a div b; r = a mod b in
      if 2 * r < b then q else if b < 2 * r then q + 1 else if even q then q else q + 1)"

definition fmt_mb :: "nat \<Rightarrow> string" where
  "fmt_mb n = (let t = round_half_even (10 * n) (1024 * 1024)
               in show_nat (t div 10) @ ''.'' @ show_nat (t mod 10))"

text \<open>\<open>str(self.max_file_size/1024/1024)\<close>, the float \<open>50.0\<close>.\<close>

definition max_mb :: string where
  "max_mb = ''50.0''"

definition too_large_msg :: "string \<Rightarrow> string" where
  "too_large_msg pdf_bytes =
     ''File too large: '' @ fmt_mb (length pdf_bytes) @ ''MB. Maximum allowed: ''
       @ max_mb @ ''MB''"

definition no_header_msg :: string where
  "no_header_msg = ''Invalid PDF file: Missing PDF header signature''"

definition no_eof_msg :: string where
  "no_eof_msg = ''Invalid PDF file: Missing end-of-file marker''"

definition validate_pdf_security :: "string \<Rightarrow> exn + bool" where
  "validate_pdf_security pdf_bytes =
     (if length pdf_bytes > max_file_size then Inl (ValueError (too_large_msg pdf_bytes))
      else if \<not> startswith pdf_bytes ''%PDF-'' then Inl (ValueError no_header_msg)
      else if \<not> contains ''%%EOF'' pdf_bytes then Inl (ValueError no_eof_msg)
      else Inr True)"

subsection \<open>The PDF parser\<close>

text \<open>
  pdfplumber is outside the repository.  A parser is a function from the bytes to the
  pages or to the exception \<open>pdfplumber.open\<close> raises; a page gives what
  \<open>page.extract_text()\<close> returns (a string or \<open>None\<close>) and what \<open>page.extract_tables()\<close>
  returns (tables of rows of cells, a cell a string or \<open>None\<close>), or the exception each
  raises.
\<close>

type_synonym raw_table = "string option list list"

record page =
  page_extract_text :: "exn + string option"
  page_extract_tables :: "exn + raw_table list"

type_synonym parser = "string \<Rightarrow> exn + page list"

subsection \<open>extract\_text\<close>

text \<open>One round of the loop over the lines; the state is \<open>(merged_lines, current_block)\<close>.\<close>

definition merge_step :: "string list \<times> string \<Rightarrow> string \<Rightarrow> string list \<times> string" where
  "merge_step st raw =
     (let merged_lines = fst st; current_block = snd st; line = strip raw in
      case line of
        c # _ \<Rightarrow>
          if current_block \<noteq> [] \<and> \<not> isupper c \<and> length current_block < 100
          then (merged_lines, current_block @ [SP] @ line)
          else ((if current_block \<noteq> [] then merged_lines @ [current_block] else merged_lines),
                line)
      | [] \<Rightarrow>
          if current_block \<noteq> [] then (merged_lines @ [current_block], [])
          else (merged_lines, current_block))"

definition merge_lines :: "string list \<Rightarrow> string list" where
  "merge_lines lines =
     (let st = foldl merge_step ([], []) lines in
      if snd st \<noteq> [] then fst st @ [snd st] else fst st)"

definition merge_text_blocks :: "string \<Rightarrow> string" where
  "merge_text_blocks text = join [NL] (merge_lines (split_on NL text))"

text \<open>
  The loop over the pages only assigns \<open>page_text\<close>: the statements that clean and append
  the text stand after the loop, at the indentation of the \<open>for\<close>.  The loop's
  result is the variable as the last page left it, \<open>None\<close> when no page assigned it.
\<close>

fun text_loop :: "page list \<Rightarrow> string option option \<Rightarrow> exn + string option option" where
  "text_loop [] v = Inr v"
| "text_loop (p # ps) v =
     (case page_extract_text p of Inl e \<Rightarrow> Inl e | Inr t \<Rightarrow> text_loop ps (Some t))"

definition clean_page_text :: "bool \<Rightarrow> bool \<Rightarrow> string \<Rightarrow> string" where
  "clean_page_text preserve_formatting merge t =
     (let t1 = (if \<not> preserve_formatting then strip (collapse_ws False t) else t)
      in if merge then merge_text_blocks t1 else t1)"

datatype text_result = Pages "string list" | Joined string

definition page_break :: string where
  "page_break = [NL, NL] @ ''--- Page Break ---'' @ [NL, NL]"

text \<open>The inner \<open>try\<close>: what runs once the validation has passed.\<close>

definition extract_text_body ::
  "parser \<Rightarrow> string \<Rightarrow> bool \<Rightarrow> bool \<Rightarrow> bool \<Rightarrow> exn + text_result" where
  "extract_text_body parse pdf_bytes preserve_formatting split_by_pages merge =
     (case parse pdf_bytes of
        Inl e \<Rightarrow> Inl e
      | Inr pages \<Rightarrow>
         (case text_loop pages None of
            Inl e \<Rightarrow> Inl e
          | Inr None \<Rightarrow> Inl (UnboundLocalError ''page_text'')
          | Inr (Some t) \<Rightarrow>
             (let extracted_text =
                    (case t of
                       None \<Rightarrow> [[]]
                     | Some s \<Rightarrow>
                         if s \<noteq> [] then [clean_page_text preserve_formatting merge s]
                         else [[]])
              in if extracted_text = []
                 then Inl (ValueError ''No text could be extracted from the PDF'')
                 else if split_by_pages then Inr (Pages extracted_text)
                 else Inr (Joined (join page_break extracted_text)))))"

text \<open>
  The whole method.  Every exception is wrapped into one \<open>Exception\<close> that keeps its
  message.  The last argument and the second result count the calls of
  \<open>pdfplumber.open\<close>.
\<close>

definition extract_text ::
  "parser \<Rightarrow> string \<Rightarrow> bool \<Rightarrow> bool \<Rightarrow> bool \<Rightarrow> nat \<Rightarrow> (exn + text_result) \<times> nat" where
  "extract_text parse pdf_bytes preserve_formatting split_by_pages merge opens =
     (case validate_pdf_security pdf_bytes of
        Inl e \<Rightarrow> (Inl (Exception (''Failed to extract text from PDF: '' @ str_exn e)), opens)
      | Inr _ \<Rightarrow>
         (case extract_text_body parse pdf_bytes preserve_formatting split_by_pages merge of
            Inl e \<Rightarrow>
              (Inl (Exception (''Failed to extract text from PDF: '' @ str_exn e)), opens + 1)
          | Inr r \<Rightarrow> (Inr r, opens + 1)))"

subsection \<open>DataFrames\<close>

text \<open>
  pandas is outside the repository.  A \<open>DataFrame\<close> is its column labels, each with
  whether the column's dtype is \<open>object\<close>, its rows of cells, and the two entries of
  \<open>attrs\<close> the code sets.  A label and a cell are a string or \<open>None\<close>.
\<close>

datatype dtype = ObjectDtype | OtherDtype

record dataframe =
  df_columns :: "(string option \<times> dtype) list"
  df_rows :: "string option list list"
  df_page :: "nat option"
  df_table :: "nat option"

definition df_empty :: "dataframe \<Rightarrow> bool" where
  "df_empty df = (df_columns df = [] \<or> df_rows df = [])"

definition max_cols :: "'a list list \<Rightarrow> nat" where
  "max_cols rows = foldr (\<lambda>row m. max (length row) m) rows 0"

definition pad_row :: "nat \<Rightarrow> 'a \<Rightarrow> 'a list \<Rightarrow> 'a list" where
  "pad_row n filler row = row @ replicate (n - length row) filler"

text \<open>
  \<open>pd.DataFrame(data, columns=header)\<close> for a list of lists: no rows give an empty frame
  with the columns; otherwise the rows are filled with \<open>None\<close> up to the longest, and a
  width other than the number of labels is a \<open>ValueError\<close>.  Columns built from strings
  and \<open>None\<close> have dtype \<open>object\<close>.
\<close>

definition DataFrame :: "string option list list \<Rightarrow> string option list \<Rightarrow> exn + dataframe" where
  "DataFrame data header =
     (if data = [] then
        Inr \<lparr> df_columns = map (\<lambda>l. (l, ObjectDtype)) header, df_rows = [],
              df_page = None, df_table = None \<rparr>
      else if max_cols data \<noteq> length header then
        Inl (ValueError (show_nat (length header) @ '' columns passed, passed data had ''
               @ show_nat (max_cols data) @ '' columns''))
      else
        Inr \<lparr> df_columns = map (\<lambda>l. (l, ObjectDtype)) header,
              df_rows = map (pad_row (length header) None) data,
              df_page = None, df_table = None \<rparr>)"

subsection \<open>extract\_tables\<close>

definition default_columns :: "nat \<Rightarrow> string option list" where
  "default_columns k = map (\<lambda>i. Some (''Column_'' @ show_nat (i + 1))) [0..<k]"

text \<open>\<open>astype(str)\<close> on a cell.\<close>

definition str_cell :: "string option \<Rightarrow> string" where
  "str_cell c = (case c of None \<Rightarrow> ''None'' | Some s \<Rightarrow> s)"

text \<open>\<open>dropna(how='all')\<close>, then the rows whose cells all print as the empty string.\<close>

definition drop_empty_rows :: "string option list list \<Rightarrow> string option list list" where
  "drop_empty_rows rows =
     filter (\<lambda>r. \<not> list_all (\<lambda>c. str_cell c = []) r)
       (filter (\<lambda>r. \<not> list_all (\<lambda>c. c = None) r) rows)"

definition clean_columns :: "string option list \<Rightarrow> string list" where
  "clean_columns cols =
     map (\<lambda>(i, col). case col of Some s \<Rightarrow> strip s | None \<Rightarrow> ''Column_'' @ show_nat (i + 1))
       (zip [0..<length cols] cols)"

definition clean_cell :: "string option \<Rightarrow> string option" where
  "clean_cell c = (let s = strip (str_cell c) in Some (if s = ''None'' then [] else s))"

text \<open>
  The body of the loop over the tables: \<open>None\<close> when nothing is appended.  In the loop
  over the columns \<open>df[col]\<close> is a frame, not a column, when the label \<open>col\<close> stands
  twice, and has no \<open>.str\<close>.
\<close>

definition table_frame :: "bool \<Rightarrow> nat \<Rightarrow> nat \<Rightarrow> raw_table \<Rightarrow> exn + dataframe option" where
  "table_frame remove_empty_rows page_num table_num table =
     (case table of
        [] \<Rightarrow> Inr None
      | first # rest \<Rightarrow>
         (let header = (if first \<noteq> [] then first
                        else default_columns (case rest of [] \<Rightarrow> 0 | r # _ \<Rightarrow> length r));
              data = rest
          in case DataFrame data header of
               Inl e \<Rightarrow> Inl e
             | Inr df \<Rightarrow>
                (let rows1 = (if remove_empty_rows then drop_empty_rows (df_rows df)
                              else df_rows df);
                     cols = clean_columns (map fst (df_columns df))
                 in if \<not> distinct cols then Inl (AttributeError ''DataFrame'' ''str'')
                    else
                      (let df' = \<lparr> df_columns = map (\<lambda>l. (Some l, ObjectDtype)) cols,
                                     df_rows = map (map clean_cell) rows1,
                                     df_page = Some (page_num + 1),
                                     df_table = Some (table_num + 1) \<rparr>
                       in if \<not> df_empty df' then Inr (Some df') else Inr None))))"

fun tables_loop ::
  "page list \<Rightarrow> raw_table list option \<Rightarrow> exn + raw_table list option" where
  "tables_loop [] v = Inr v"
| "tables_loop (p # ps) v =
     (case page_extract_tables p of Inl e \<Rightarrow> Inl e | Inr t \<Rightarrow> tables_loop ps (Some t))"

text \<open>The loop over \<open>enumerate(tables)\<close>, appending to \<open>all_tables\<close>.\<close>

fun frames_loop ::
  "bool \<Rightarrow> nat \<Rightarrow> nat \<Rightarrow> raw_table list \<Rightarrow> dataframe list \<Rightarrow> exn + dataframe list" where
  "frames_loop rer page_num table_num [] all_tables = Inr all_tables"
| "frames_loop rer page_num table_num (t # ts) all_tables =
     (case table_frame rer page_num table_num t of
        Inl e \<Rightarrow> Inl e
      | Inr None \<Rightarrow> frames_loop rer page_num (table_num + 1) ts all_tables
      | Inr (Some df) \<Rightarrow> frames_loop rer page_num (table_num + 1) ts (all_tables @ [df]))"

subsection \<open>The fallback: tables from the text\<close>

definition has_hint :: "string \<Rightarrow> bool" where
  "has_hint line =
     (contains [TAB] line \<or> contains [SP, SP] line \<or> contains ''|'' line
        \<or> contains '','' line)"

text \<open>\<open>re.split(r'\s{2,}', line)\<close>: the line is cut at every run of two or more
  whitespace characters; a single one stays in its cell.\<close>

function re_split_ws2 :: "string \<Rightarrow> string \<Rightarrow> string list" where
  "re_split_ws2 cur [] = [cur]"
| "re_split_ws2 cur (c # cs) =
     (if isspace c \<and> takeWhile isspace cs \<noteq> []
      then cur # re_split_ws2 [] (dropWhile isspace cs)
      else re_split_ws2 (cur @ [c]) cs)"
  by pat_completeness auto
termination
  by (relation "measure (\<lambda>(cur, s). length s)")
     (auto simp: length_dropWhile_le less_Suc_eq_le)

definition split_row :: "string \<Rightarrow> string list" where
  "split_row line =
     (if TAB \<in> set line then split_on TAB line
      else if CHR ''|'' \<in> set line then
        map strip (filter (\<lambda>cell. strip cell \<noteq> []) (split_on (CHR ''|'') line))
      else re_split_ws2 [] line)"

definition potential_table_lines :: "string \<Rightarrow> string list" where
  "potential_table_lines page_text =
     filter (\<lambda>line. length (split_ws line) \<ge> 2 \<and> has_hint line)
       (map strip (split_on NL page_text))"

text \<open>The table of one page of text, if the page gives one.\<close>

definition text_table :: "nat \<Rightarrow> string \<Rightarrow> dataframe option" where
  "text_table page_num page_text =
     (let lines = potential_table_lines page_text in
      if length lines \<ge> 2 then
        (let rows = filter (\<lambda>row. row \<noteq> [] \<and> length row > 1) (map split_row lines) in
         if rows \<noteq> [] \<and> length rows > 1 then
           (let padded_rows = map (pad_row (max_cols rows) []) rows in
            case padded_rows of
              [] \<Rightarrow> None
            | head # body \<Rightarrow>
               (case DataFrame (map (map Some) body) (map Some head) of
                  Inl e \<Rightarrow> None
                | Inr df \<Rightarrow> Some (df \<lparr> df_page := Some (page_num + 1), df_table := Some 1 \<rparr>)))
         else None)
      else None)"

fun text_tables :: "nat \<Rightarrow> string list \<Rightarrow> dataframe list" where
  "text_tables page_num [] = []"
| "text_tables page_num (t # ts) =
     (case text_table page_num t of
        None \<Rightarrow> text_tables (page_num + 1) ts
      | Some df \<Rightarrow> df # text_tables (page_num + 1) ts)"

definition extract_tables_alternative ::
  "parser \<Rightarrow> string \<Rightarrow> nat \<Rightarrow> dataframe list \<times> nat" where
  "extract_tables_alternative parse pdf_bytes opens =
     (case extract_text parse pdf_bytes True True False opens of
        (Inl e, n) \<Rightarrow> ([], n)
      | (Inr (Pages text_data), n) \<Rightarrow> (text_tables 0 text_data, n)
      | (Inr (Joined s), n) \<Rightarrow> (text_tables 0 (map (\<lambda>c. [c]) s), n))"

definition extract_tables_body ::
  "parser \<Rightarrow> string \<Rightarrow> bool \<Rightarrow> nat \<Rightarrow> (exn + dataframe list) \<times> nat" where
  "extract_tables_body parse pdf_bytes remove_empty_rows opens =
     (case parse pdf_bytes of
        Inl e \<Rightarrow> (Inl e, opens + 1)
      | Inr pages \<Rightarrow>
         (case tables_loop pages None of
            Inl e \<Rightarrow> (Inl e, opens + 1)
          | Inr None \<Rightarrow> (Inl (UnboundLocalError ''tables''), opens + 1)
          | Inr (Some tables) \<Rightarrow>
             (case frames_loop remove_empty_rows (length pages - 1) 0 tables [] of
                Inl e \<Rightarrow> (Inl e, opens + 1)
              | Inr all_tables \<Rightarrow>
                  if all_tables = [] then
                    (case extract_tables_alternative parse pdf_bytes (opens + 1) of
                       (ts, n) \<Rightarrow> (Inr ts, n))
                  else (Inr all_tables, opens + 1))))"

definition extract_tables ::
  "parser \<Rightarrow> string \<Rightarrow> bool \<Rightarrow> nat \<Rightarrow> (exn + dataframe list) \<times> nat" where
  "extract_tables parse pdf_bytes remove_empty_rows opens =
     (case validate_pdf_security pdf_bytes of
        Inl e \<Rightarrow> (Inl (Exception (''Failed to extract tables from PDF: '' @ str_exn e)), opens)
      | Inr _ \<Rightarrow>
         (case extract_tables_body parse pdf_bytes remove_empty_rows opens of
            (Inl e, n) \<Rightarrow>
              (Inl (Exception (''Failed to extract tables from PDF: '' @ str_exn e)), n)
          | (Inr ts, n) \<Rightarrow> (Inr ts, n)))"

section \<open>Regular expressions\<close>

text \<open>
  The part of Python's \<open>re\<close> the sanitizer's patterns use: character classes, \<open>\b\<close>,
  sequence, alternation, the greedy \<open>?\<close>, and greedy bounded repetition of a class.
\<close>

text \<open>\<open>\d\<close> and \<open>\w\<close> on the code points below 256.\<close>

definition isdigit :: "char \<Rightarrow> bool" where
  "isdigit c = (let n = (of_char c :: int) in 48 \<le> n \<and> n \<le> 57)"

definition is_word :: "char \<Rightarrow> bool" where
  "is_word c = (let n = (of_char c :: int) in
     (48 \<le> n \<and> n \<le> 57) \<or> (65 \<le> n \<and> n \<le> 90) \<or> n = 95 \<or> (97 \<le> n \<and> n \<le> 122)
     \<or> n = 170 \<or> n = 178 \<or> n = 179 \<or> n = 181 \<or> n = 185 \<or> n = 186
     \<or> (188 \<le> n \<and> n \<le> 190) \<or> (192 \<le> n \<and> n \<le> 214) \<or> (216 \<le> n \<and> n \<le> 246)
     \<or> (248 \<le> n \<and> n \<le> 255))"

datatype atom = Ch char | Rng char char | Dig | Spc

fun in_atom :: "atom \<Rightarrow> char \<Rightarrow> bool" where
  "in_atom (Ch a) c = (c = a)"
| "in_atom (Rng a b) c = ((of_char a :: int) \<le> of_char c \<and> (of_char c :: int) \<le> of_char b)"
| "in_atom Dig c = isdigit c"
| "in_atom Spc c = isspace c"

definition in_cls :: "atom list \<Rightarrow> char \<Rightarrow> bool" where
  "in_cls k c = list_ex (\<lambda>a. in_atom a c) k"

datatype regex =
    Eps
  | Cls "atom list"
  | WordB
  | Seq regex regex
  | Alt regex regex
  | Opt regex
  | Rep "atom list" nat "nat option"

text \<open>
  A position in the subject is the rest of the string with whether the character before
  it is a word character.  \<open>rep_states k lo hi i\<close> lists the positions after \<open>i\<close>
  characters of the class are consumed, the longest first.
\<close>

fun rep_states ::
  "atom list \<Rightarrow> nat \<Rightarrow> nat option \<Rightarrow> nat \<Rightarrow> bool \<Rightarrow> string \<Rightarrow> (bool \<times> string) list" where
  "rep_states k lo hi i p [] = (if lo \<le> i then [(p, [])] else [])"
| "rep_states k lo hi i p (c # cs) =
     (if in_cls k c \<and> (case hi of None \<Rightarrow> True | Some h \<Rightarrow> i < h)
      then rep_states k lo hi (i + 1) (is_word c) cs else [])
     @ (if lo \<le> i then [(p, c # cs)] else [])"

text \<open>
  The positions at which a match that starts at the given one can end, in the order in
  which the backtracking matcher tries them: the first is the match \<open>re\<close> reports.
\<close>

fun rmatch :: "regex \<Rightarrow> bool \<times> string \<Rightarrow> (bool \<times> string) list" where
  "rmatch Eps st = [st]"
| "rmatch (Cls k) st =
     (case snd st of [] \<Rightarrow> [] | c # cs \<Rightarrow> if in_cls k c then [(is_word c, cs)] else [])"
| "rmatch WordB st =
     (if fst st \<noteq> (case snd st of [] \<Rightarrow> False | c # cs \<Rightarrow> is_word c) then [st] else [])"
| "rmatch (Seq a b) st = concat (map (rmatch b) (rmatch a st))"
| "rmatch (Alt a b) st = rmatch a st @ rmatch b st"
| "rmatch (Opt a) st = rmatch a st @ [st]"
| "rmatch (Rep k lo hi) st = rep_states k lo hi 0 (fst st) (snd st)"

text \<open>
  \<open>pattern.sub(repl, s)\<close> for a replacement without group references: the leftmost
  match is replaced and the search goes on behind it; where nothing matches, one
  character is copied.  An empty match is replaced too, and the search moves one
  character on.
\<close>

function re_sub :: "regex \<Rightarrow> string \<Rightarrow> bool \<Rightarrow> string \<Rightarrow> string" where
  "re_sub r repl p s =
     (case rmatch r (p, s) of
        [] \<Rightarrow> (case s of [] \<Rightarrow> [] | c # cs \<Rightarrow> c # re_sub r repl (is_word c) cs)
      | st # _ \<Rightarrow>
          if length (snd st) < length s then repl @ re_sub r repl (fst st) (snd st)
          else repl @ (case s of [] \<Rightarrow> [] | c # cs \<Rightarrow> c # re_sub r repl (is_word c) cs))"
  by pat_completeness auto
termination
  by (relation "measure (\<lambda>(r, repl, p, s). length s)") auto

declare re_sub.simps [simp del]

definition seqs :: "regex list \<Rightarrow> regex" where
  "seqs rs = foldr Seq rs Eps"

definition Lit :: "char \<Rightarrow> regex" where
  "Lit c = Cls [Ch c]"

section \<open>DataSanitizer\<close>

text \<open>\<open>\b[A-Za-z0-9._%+-]+@[A-Za-z0-9.-]+\.[A-Z|a-z]{2,}\b\<close>\<close>

definition email_pattern :: regex where
  "email_pattern = seqs
     [WordB,
      Rep [Rng (CHR ''A'') (CHR ''Z''), Rng (CHR ''a'') (CHR ''z''), Rng (CHR ''0'') (CHR ''9''),
           Ch (CHR ''.''), Ch (CHR ''_''), Ch (CHR ''%''), Ch (CHR ''+''), Ch (CHR ''-'')]
          1 None,
      Lit (CHR ''@''),
      Rep [Rng (CHR ''A'') (CHR ''Z''), Rng (CHR ''a'') (CHR ''z''), Rng (CHR ''0'') (CHR ''9''),
           Ch (CHR ''.''), Ch (CHR ''-'')]
          1 None,
      Lit (CHR ''.''),
      Rep [Rng (CHR ''A'') (CHR ''Z''), Ch (CHR ''|''), Rng (CHR ''a'') (CHR ''z'')] 2 None,
      WordB]"

text \<open>\<open>(\+?\d{1,3}[-.\s]?)?\(?\d{3}\)?[-.\s]?\d{3}[-.\s]?\d{4}\<close>\<close>

definition phone_pattern :: regex where
  "phone_pattern = seqs
     [Opt (seqs [Opt (Lit (CHR ''+'')), Rep [Dig] 1 (Some 3),
                 Opt (Cls [Ch (CHR ''-''), Ch (CHR ''.''), Spc])]),
      Opt (Lit (CHR ''('')), Rep [Dig] 3 (Some 3), Opt (Lit (CHR '')'')),
      Opt (Cls [Ch (CHR ''-''), Ch (CHR ''.''), Spc]),
      Rep [Dig] 3 (Some 3),
      Opt (Cls [Ch (CHR ''-''), Ch (CHR ''.''), Spc]),
      Rep [Dig] 4 (Some 4)]"

text \<open>\<open>\b\d{3}-\d{2}-\d{4}\b\<close>\<close>

definition ssn_pattern :: regex where
  "ssn_pattern = seqs
     [WordB, Rep [Dig] 3 (Some 3), Lit (CHR ''-''), Rep [Dig] 2 (Some 2), Lit (CHR ''-''),
      Rep [Dig] 4 (Some 4), WordB]"

text \<open>\<open>\b\d{4}[-\s]?\d{4}[-\s]?\d{4}[-\s]?\d{4}\b\<close>\<close>

definition credit_card_pattern :: regex where
  "credit_card_pattern = seqs
     [WordB, Rep [Dig] 4 (Some 4), Opt (Cls [Ch (CHR ''-''), Spc]),
      Rep [Dig] 4 (Some 4), Opt (Cls [Ch (CHR ''-''), Spc]),
      Rep [Dig] 4 (Some 4), Opt (Cls [Ch (CHR ''-''), Spc]),
      Rep [Dig] 4 (Some 4), WordB]"

text \<open>\<open>\b\d{6,12}\b\<close>\<close>

definition id_number_pattern :: regex where
  "id_number_pattern = seqs [WordB, Rep [Dig] 6 (Some 12), WordB]"

text \<open>\<open>\b\d{4,}\b\<close>\<close>

definition numeric_sequences :: regex where
  "numeric_sequences = seqs [WordB, Rep [Dig] 4 None, WordB]"

text \<open>\<open>\b\d{15}|\d{17}[\dXx]\b\<close>: the alternation is the outermost operator.\<close>

definition chinese_id_pattern :: regex where
  "chinese_id_pattern =
     Alt (seqs [WordB, Rep [Dig] 15 (Some 15)])
         (seqs [Rep [Dig] 17 (Some 17), Cls [Dig, Ch (CHR ''X''), Ch (CHR ''x'')], WordB])"

text \<open>\<open>pattern.sub(repl, text)\<close> from the start of the text, where no character stands
  before the first.\<close>

definition sub :: "regex \<Rightarrow> string \<Rightarrow> string \<Rightarrow> string" where
  "sub pattern repl text = re_sub pattern repl False text"

text \<open>
  \<open>sanitize_text\<close> on a string (the branch for other values returns \<open>str(text)\<close>, and
  for the empty string that is the empty string).
\<close>

definition basic_substitutions :: "string \<Rightarrow> string" where
  "basic_substitutions text =
     (let t1 = sub email_pattern ''[EMAIL_REDACTED]'' text;
          t2 = sub phone_pattern ''[PHONE_REDACTED]'' t1;
          t3 = sub ssn_pattern ''[SSN_REDACTED]'' t2;
          t4 = sub credit_card_pattern ''[CARD_REDACTED]'' t3;
          t5 = sub chinese_id_pattern ''[ID_REDACTED]'' t4
      in sub id_number_pattern ''[ID_REDACTED]'' t5)"

definition sanitize_text :: "string \<Rightarrow> bool \<Rightarrow> bool \<Rightarrow> string" where
  "sanitize_text text basic_sanitization redact_numbers =
     (if text = [] then []
      else
        (let sanitized_text = (if basic_sanitization then basic_substitutions text else text)
         in if redact_numbers then sub numeric_sequences ''[NUMBER_REDACTED]'' sanitized_text
            else sanitized_text))"

subsection \<open>sanitize\_dataframe\<close>

text \<open>
  The frames live in a store, a list of objects addressed by their index, so that the
  argument and the copy are two objects.  \<open>df.copy()\<close> puts a frame with the same
  contents at a new address.
\<close>

type_synonym store = "dataframe list"

definition copy_frame :: "store \<Rightarrow> nat \<Rightarrow> store \<times> nat" where
  "copy_frame h r = (h @ [h ! r], length h)"

text \<open>\<open>df[column] = df[column].apply(f)\<close> on the object at \<open>r\<close>, for the column at
  position \<open>j\<close>.\<close>

definition apply_column :: "(string option \<Rightarrow> string) \<Rightarrow> nat \<Rightarrow> store \<Rightarrow> nat \<Rightarrow> store" where
  "apply_column f j h r =
     h [r := (h ! r) \<lparr> df_rows := map (\<lambda>row. row [j := Some (f (row ! j))]) (df_rows (h ! r)) \<rparr>]"

text \<open>
  The loop over the columns of the copy.  \<open>df[column]\<close> is a frame when the label stands
  more than once, and a frame has no \<open>dtype\<close>; the exception leaves the store as it
  is then.
\<close>

fun sanitize_columns ::
  "(nat \<times> string option \<times> dtype) list \<Rightarrow> bool \<Rightarrow> bool \<Rightarrow> store \<Rightarrow> nat \<Rightarrow> store \<times> exn option" where
  "sanitize_columns [] basic redact h r = (h, None)"
| "sanitize_columns ((j, label, dt) # cols) basic redact h r =
     (if count_list (map fst (df_columns (h ! r))) label \<noteq> 1
      then (h, Some (AttributeError ''DataFrame'' ''dtype''))
      else if dt = ObjectDtype
      then sanitize_columns cols basic redact
             (apply_column (\<lambda>x. sanitize_text (str_cell x) basic redact) j h r) r
      else sanitize_columns cols basic redact h r)"

text \<open>The argument is \<open>None\<close> or the address of a frame; so is the result.\<close>

definition sanitize_dataframe ::
  "store \<Rightarrow> nat option \<Rightarrow> bool \<Rightarrow> bool \<Rightarrow> store \<times> (exn + nat option)" where
  "sanitize_dataframe h df basic_sanitization redact_numbers =
     (case df of
        None \<Rightarrow> (h, Inr None)
      | Some r \<Rightarrow>
          if df_empty (h ! r) then (h, Inr (Some r))
          else
            (case copy_frame h r of
               (h1, sanitized_df) \<Rightarrow>
                 (let cols = df_columns (h1 ! sanitized_df) in
                  case sanitize_columns (zip [0..<length cols] cols)
                         basic_sanitization redact_numbers h1 sanitized_df of
                    (h2, Some e) \<Rightarrow> (h2, Inl e)
                  | (h2, None) \<Rightarrow> (h2, Inr (Some sanitized_df)))))"

section \<open>ExcelConverter\<close>

text \<open>
  openpyxl is outside the repository.  A workbook is the list of its sheets; a sheet is
  its title and its cells by row and column, a cell holding a string or \<open>None\<close>.
  Fonts, fills, borders and column widths are left out.  Creating a sheet, writing a
  cell and saving the workbook are taken to succeed.  The clock is a parameter: \<open>now\<close>
  is what \<open>pd.Timestamp.now().strftime('%Y-%m-%d %H:%M:%S')\<close> gives.
\<close>

record sheet =
  sheet_title :: string
  sheet_cells :: "nat \<times> nat \<Rightarrow> string option option"


definition new_sheet :: "string \<Rightarrow> sheet" where
  "new_sheet t = \<lparr> sheet_title = t, sheet_cells = (\<lambda>_. None) \<rparr>"

definition put :: "nat \<times> nat \<Rightarrow> string option \<Rightarrow> sheet \<Rightarrow> sheet" where
  "put pos v ws = ws \<lparr> sheet_cells := (sheet_cells ws) (pos \<mapsto> v) \<rparr>"

text \<open>The values the exporter is handed: Python is untyped, and the export must stand any
  of them.  A dictionary is the list of its items.\<close>

datatype pyval =
    PyNone
  | PyStr string
  | PyList "pyval list"
  | PyDict "(string \<times> pyval) list"
  | PyFrame dataframe

definition type_name :: "pyval \<Rightarrow> string" where
  "type_name v = (case v of PyNone \<Rightarrow> ''NoneType'' | PyStr _ \<Rightarrow> ''str'' | PyList _ \<Rightarrow> ''list''
                   | PyDict _ \<Rightarrow> ''dict'' | PyFrame _ \<Rightarrow> ''DataFrame'')"








text \<open>\<open>ws.cell(row=r_idx, column=c_idx, value=value)\<close> along one row, then down the rows
  \<open>dataframe_to_rows\<close> yields.\<close>

fun put_row :: "nat \<Rightarrow> nat \<Rightarrow> string option list \<Rightarrow> sheet \<Rightarrow> sheet" where
  "put_row r_idx c_idx [] ws = ws"
| "put_row r_idx c_idx (v # vs) ws = put_row r_idx (c_idx + 1) vs (put (r_idx, c_idx) v ws)"

fun put_rows :: "nat \<Rightarrow> string option list list \<Rightarrow> sheet \<Rightarrow> sheet" where
  "put_rows r_idx [] ws = ws"
| "put_rows r_idx (row # rows) ws = put_rows (r_idx + 1) rows (put_row r_idx 1 row ws)"

definition dataframe_to_rows :: "dataframe \<Rightarrow> string option list list" where
  "dataframe_to_rows df = map fst (df_columns df) # df_rows df"

text \<open>\<open>re.sub(r'[\\/*?:\[\]]', '', sheet_name)[:31]\<close>\<close>

definition valid_sheet_name :: "string \<Rightarrow> string" where
  "valid_sheet_name n = take 31 (filter (\<lambda>c. c \<notin> set [CHR 0x5C, CHR ''/'', CHR ''*'', CHR ''?'', CHR '':'', CHR ''['', CHR '']'']) n)"

text \<open>One round of the loop over the tables.  An element that is no frame has no
  \<open>attrs\<close>; its sheet is made, and \<open>dataframe_to_rows\<close> fails on it.\<close>

definition table_sheet :: "nat \<Rightarrow> pyval \<Rightarrow> string \<Rightarrow> exn + sheet" where
  "table_sheet i df filename =
     (case df of
        PyFrame f \<Rightarrow>
          (let sheet_name =
                 (case df_page f of
                    Some pg \<Rightarrow> ''Table_'' @ show_nat (i + 1) @ ''_Page_'' @ show_nat pg
                  | None \<Rightarrow> ''Table_'' @ show_nat (i + 1));
               ws = put (1, 1) (Some (''Table '' @ show_nat (i + 1) @ '' from: '' @ filename))
                      (new_sheet (valid_sheet_name sheet_name))
           in case df_page f of
                Some pg \<Rightarrow>
                  Inr (put_rows 4 (dataframe_to_rows f)
                         (put (2, 1) (Some (''Source: Page '' @ show_nat pg)) ws))
              | None \<Rightarrow> Inr (put_rows 3 (dataframe_to_rows f) ws))
      | _ \<Rightarrow> Inl (AttributeError (type_name df) ''columns''))"







section \<open>Notions for the properties\<close>

text \<open>The invariant of a table: every row is as long as the header.\<close>

definition rows_match_header :: "dataframe \<Rightarrow> bool" where
  "rows_match_header df = list_all (\<lambda>row. length row = length (df_columns df)) (df_rows df)"

text \<open>The header \<open>extract_tables\<close> gives a raw table.\<close>

definition table_header :: "raw_table \<Rightarrow> string option list" where
  "table_header t = (case t of [] \<Rightarrow> []
     | first # rest \<Rightarrow> if first \<noteq> [] then first
          else default_columns (case rest of [] \<Rightarrow> 0 | r # _ \<Rightarrow> length r))"


text \<open>
  The merging of lines as a rule on paragraphs: a blank line closes the open paragraph,
  and a line that is not blank joins the open paragraph, after one space, unless
  \<open>starts_new\<close> holds of the paragraph so far and the first character of the line; then
  the line opens the next paragraph.
\<close>

fun paragraphs :: "(string \<Rightarrow> char \<Rightarrow> bool) \<Rightarrow> string \<Rightarrow> string list \<Rightarrow> string list" where
  "paragraphs starts_new paragraph [] = (if paragraph = [] then [] else [paragraph])"
| "paragraphs starts_new paragraph (raw # rest) =
     (case strip raw of
        [] \<Rightarrow> (if paragraph = [] then paragraphs starts_new [] rest
               else paragraph # paragraphs starts_new [] rest)
      | c # cs \<Rightarrow>
          if paragraph = [] then paragraphs starts_new (c # cs) rest
          else if starts_new paragraph c then paragraph # paragraphs starts_new (c # cs) rest
          else paragraphs starts_new (paragraph @ [SP] @ c # cs) rest)"

text \<open>The rule as the specification words it: the paragraph exceeds 100 characters, or
  the line starts with an uppercase ASCII letter.\<close>

definition isupper_ascii :: "char \<Rightarrow> bool" where
  "isupper_ascii c = (let n = (of_char c :: int) in 65 \<le> n \<and> n \<le> 90)"

definition claimed_break :: "string \<Rightarrow> char \<Rightarrow> bool" where
  "claimed_break paragraph c = (length paragraph > 100 \<or> isupper_ascii c)"

definition claimed_merge :: "string \<Rightarrow> string" where
  "claimed_merge text = join [NL] (paragraphs claimed_break [] (split_on NL text))"

text \<open>The rule of the code: the paragraph has 100 characters or more, or the line starts
  with an uppercase letter, ASCII or not.\<close>

definition amended_break :: "string \<Rightarrow> char \<Rightarrow> bool" where
  "amended_break paragraph c = (length paragraph \<ge> 100 \<or> isupper c)"



text \<open>A text without a decimal digit and without \<open>@\<close>; the placeholder tokens.\<close>

definition plain :: "string \<Rightarrow> bool" where
  "plain s = list_all (\<lambda>c. \<not> isdigit c \<and> c \<noteq> CHR ''@'') s"

definition placeholders :: "string list" where
  "placeholders = [''[EMAIL_REDACTED]'', ''[PHONE_REDACTED]'', ''[SSN_REDACTED]'',
     ''[CARD_REDACTED]'', ''[ID_REDACTED]'', ''[NUMBER_REDACTED]'']"

text \<open>A pattern every match of which consumes a digit or \<open>@\<close>.\<close>

fun mark_atom :: "atom \<Rightarrow> bool" where
  "mark_atom (Ch c) = (isdigit c \<or> c = CHR ''@'')"
| "mark_atom Dig = True"
| "mark_atom (Rng a b) = False"
| "mark_atom Spc = False"

fun needs_mark :: "regex \<Rightarrow> bool" where
  "needs_mark Eps = False"
| "needs_mark (Cls k) = list_all mark_atom k"
| "needs_mark WordB = False"
| "needs_mark (Seq a b) = (needs_mark a \<or> needs_mark b)"
| "needs_mark (Alt a b) = (needs_mark a \<and> needs_mark b)"
| "needs_mark (Opt a) = False"
| "needs_mark (Rep k lo hi) = (1 \<le> lo \<and> list_all mark_atom k)"

text \<open>
  For the redaction of numbers: the rest of a text is \<open>at_end\<close> of a word when it is
  empty or starts with a character that is no word character; \<open>redacts p s\<close> says that
  the pattern matches at the start of \<open>s\<close>, \<open>p\<close> telling whether a word character stands
  before it.
\<close>

definition at_end :: "string \<Rightarrow> bool" where
  "at_end s = (case s of [] \<Rightarrow> True | c # _ \<Rightarrow> \<not> is_word c)"

definition redacts :: "bool \<Rightarrow> string \<Rightarrow> bool" where
  "redacts p s = (\<not> p \<and> 4 \<le> length (takeWhile isdigit s) \<and> at_end (dropWhile isdigit s))"

definition NUM :: string where
  "NUM = ''[NUMBER_REDACTED]''"

definition redact_from :: "bool \<Rightarrow> string \<Rightarrow> string" where
  "redact_from p s = re_sub numeric_sequences NUM p s"

section \<open>Example documents\<close>

definition page_of_text :: "string \<Rightarrow> page" where
  "page_of_text s = \<lparr> page_extract_text = Inr (Some s), page_extract_tables = Inr [] \<rparr>"

definition small_pdf :: string where
  "small_pdf = ''%PDF-1.4 %%EOF''"

definition two_page_pdf :: parser where
  "two_page_pdf pdf_bytes = Inr [page_of_text ''first'', page_of_text ''second'']"

definition comma_text :: string where
  "comma_text = ''name, age'' @ [NL] @ ''bob, 42''"

definition comma_pdf :: parser where
  "comma_pdf pdf_bytes = Inr [page_of_text comma_text]"

definition spaced_text :: string where
  "spaced_text = ''name  age  city'' @ [NL] @ ''bob  42''"

definition short_row_table :: raw_table where
  "short_row_table = [[Some ''a'', Some ''b''], [Some ''1''], [Some ''2'', Some ''3'']]"

definition short_row_pdf :: parser where
  "short_row_pdf pdf_bytes =
     Inr [\<lparr> page_extract_text = Inr (Some []), page_extract_tables = Inr [short_row_table] \<rparr>]"

definition short_row_frame :: dataframe where
  "short_row_frame =
     \<lparr> df_columns = [(Some ''a'', ObjectDtype), (Some ''b'', ObjectDtype)],
       df_rows = [[Some ''1'', Some []], [Some ''2'', Some ''3'']],
       df_page = Some 1, df_table = Some 1 \<rparr>"

definition spaced_frame :: dataframe where
  "spaced_frame =
     \<lparr> df_columns = [(Some ''name'', ObjectDtype), (Some ''age'', ObjectDtype),
                     (Some ''city'', ObjectDtype)],
       df_rows = [[Some ''bob'', Some ''42'', Some []]], df_page = Some 1, df_table = Some 1 \<rparr>"



definition hundred :: string where
  "hundred = replicate 100 (CHR ''a'')"

definition long_line_text :: string where
  "long_line_text = hundred @ [NL] @ ''b''"

definition accent_text :: string where
  "accent_text = ''a'' @ [NL] @ [CHR 0xC9] @ ''cole''"

definition example_frame :: dataframe where
  "example_frame = \<lparr> df_columns = [(Some ''contact'', ObjectDtype)],
                      df_rows = [[Some ''a@b.com'']],
                      df_page = Some 1, df_table = Some 1 \<rparr>"

section \<open>Properties\<close>

lemma valid_small: "validate_pdf_security small_pdf = Inr True"
  by (simp add: validate_pdf_security_def max_file_size_def startswith_def small_pdf_def)

subsection \<open>Text of a document of several pages\<close>

text \<open>
  C1.  With \<open>split_by_pages\<close> the result should hold one string per page.  On a document
  of two pages, with the texts \<open>first\<close> and \<open>second\<close>, the code returns a list of one
  string, the text of the last page: only the assignment stands inside the loop over
  the pages.
\<close>

theorem extract_text_two_pages:
  "extract_text two_page_pdf small_pdf True True False 0 = (Inr (Pages [''second'']), 1)"
  by (simp add: extract_text_def valid_small extract_text_body_def two_page_pdf_def
      page_of_text_def clean_page_text_def)

subsection \<open>Rows and headers of the tables\<close>

lemma max_cols_ge: "row \<in> set rows \<Longrightarrow> length row \<le> max_cols rows"
  by (induction rows) (auto simp: max_cols_def)

lemma length_pad_row: "length row \<le> n \<Longrightarrow> length (pad_row n x row) = n"
  by (simp add: pad_row_def)

lemma DataFrame_shape:
  assumes "DataFrame data header = Inr df"
  shows "map fst (df_columns df) = header"
    and "df_rows df = map (pad_row (length header) None) data"
    and "\<forall>row \<in> set data. length row \<le> length header"
  using assms
  by (auto simp: DataFrame_def comp_def split: if_splits dest: max_cols_ge)

lemma length_clean_columns: "length (clean_columns cols) = length cols"
  by (simp add: clean_columns_def)

lemma strip_None: "strip ''None'' = ''None''"
  by (simp add: strip_def isspace_def)

lemma clean_cell_None: "clean_cell None = Some []"
  by (simp add: clean_cell_def str_cell_def strip_None)

lemma clean_padded:
  "map clean_cell (pad_row n None raw) = map clean_cell raw @ replicate (n - length raw) (Some [])"
  by (simp add: pad_row_def clean_cell_None)

lemma set_drop_empty_rows: "set (drop_empty_rows rows) \<subseteq> set rows"
  by (auto simp: drop_empty_rows_def)

lemma table_frame_Some:
  assumes "table_frame rer page_num table_num (first # rest) = Inr (Some df)"
  obtains df0 where "DataFrame rest (table_header (first # rest)) = Inr df0"
    and "df_columns df = map (\<lambda>l. (Some l, ObjectDtype)) (clean_columns (map fst (df_columns df0)))"
    and "df_rows df = map (map clean_cell)
           (if rer then drop_empty_rows (df_rows df0) else df_rows df0)"
proof -
  let ?h = "table_header (first # rest)"
  have h: "(if first \<noteq> [] then first
            else default_columns (case rest of [] \<Rightarrow> 0 | r # _ \<Rightarrow> length r)) = ?h"
    by (simp add: table_header_def)
  show thesis
  proof (cases "DataFrame rest ?h")
    case (Inl e)
    with assms h show thesis by (simp add: table_frame_def Let_def)
  next
    case (Inr df0)
    with assms h have "df = \<lparr> df_columns = map (\<lambda>l. (Some l, ObjectDtype))
                                  (clean_columns (map fst (df_columns df0))),
                  df_rows = map (map clean_cell)
                    (if rer then drop_empty_rows (df_rows df0) else df_rows df0),
                  df_page = Some (page_num + 1), df_table = Some (table_num + 1) \<rparr>"
      by (simp add: table_frame_def Let_def split: if_splits)
    with Inr that show thesis by simp
  qed
qed

lemma table_frame_rows:
  assumes "table_frame rer page_num table_num (first # rest) = Inr (Some df)"
  shows "length (df_columns df) = length (table_header (first # rest))"
    and "list_all (\<lambda>row. \<exists>raw \<in> set rest. length raw \<le> length (df_columns df)
           \<and> row = map clean_cell raw
                 @ replicate (length (df_columns df) - length raw) (Some [])) (df_rows df)"
proof -
  let ?h = "table_header (first # rest)"
  from assms obtain df0 where
    df0: "DataFrame rest ?h = Inr df0"
    and cols: "df_columns df = map (\<lambda>l. (Some l, ObjectDtype)) (clean_columns (map fst (df_columns df0)))"
    and rows: "df_rows df = map (map clean_cell)
           (if rer then drop_empty_rows (df_rows df0) else df_rows df0)"
    by (rule table_frame_Some)
  from cols DataFrame_shape(1) [OF df0]
  show len: "length (df_columns df) = length ?h"
    by (simp add: length_clean_columns)
  have sub: "set (if rer then drop_empty_rows (df_rows df0) else df_rows df0)
               \<subseteq> pad_row (length ?h) None ` set rest"
    using set_drop_empty_rows [of "df_rows df0"] DataFrame_shape(2) [OF df0]
    by (auto split: if_splits)
  show "list_all (\<lambda>row. \<exists>raw \<in> set rest. length raw \<le> length (df_columns df)
           \<and> row = map clean_cell raw
                 @ replicate (length (df_columns df) - length raw) (Some [])) (df_rows df)"
    unfolding list_all_iff
  proof
    fix row assume "row \<in> set (df_rows df)"
    with rows sub obtain raw where raw: "raw \<in> set rest"
      and row: "row = map clean_cell (pad_row (length ?h) None raw)"
      by auto
    from raw DataFrame_shape(3) [OF df0] have "length raw \<le> length ?h" by blast
    with raw row len show "\<exists>raw \<in> set rest. length raw \<le> length (df_columns df)
           \<and> row = map clean_cell raw
                 @ replicate (length (df_columns df) - length raw) (Some [])"
      by (auto simp: clean_padded)
  qed
qed

lemma table_frame_match:
  assumes "table_frame rer page_num table_num t = Inr (Some df)"
  shows "rows_match_header df"
proof (cases t)
  case Nil
  with assms show ?thesis by (simp add: table_frame_def)
next
  case (Cons first rest)
  from table_frame_rows(2) [OF assms [unfolded Cons]]
  show ?thesis
    by (auto simp: rows_match_header_def list_all_iff)
qed

lemma frames_loop_match:
  "frames_loop rer page_num table_num ts acc = Inr res \<Longrightarrow>
     list_all rows_match_header acc \<Longrightarrow> list_all rows_match_header res"
proof (induction ts arbitrary: table_num acc)
  case Nil
  then show ?case by simp
next
  case (Cons t ts)
  show ?case
  proof (cases "table_frame rer page_num table_num t")
    case (Inl e)
    with Cons.prems show ?thesis by simp
  next
    case (Inr r)
    show ?thesis
    proof (cases r)
      case None
      with Inr Cons.prems Cons.IH show ?thesis by simp
    next
      case (Some df)
      with Inr Cons.prems have "frames_loop rer page_num (table_num + 1) ts (acc @ [df]) = Inr res"
        by simp
      moreover have "list_all rows_match_header (acc @ [df])"
        using Cons.prems(2) table_frame_match [OF Inr [unfolded Some]] by simp
      ultimately show ?thesis by (rule Cons.IH)
    qed
  qed
qed

lemma frames_loop_match_all:
  "frames_loop rer page_num table_num ts [] = Inr res \<Longrightarrow> list_all rows_match_header res"
  using frames_loop_match [of rer page_num table_num ts "[]" res] by simp

lemma text_table_Some:
  assumes "text_table page_num page_text = Some df"
  obtains head body df0 where
    "map (pad_row (max_cols (filter (\<lambda>row. row \<noteq> [] \<and> length row > 1)
             (map split_row (potential_table_lines page_text)))) [])
       (filter (\<lambda>row. row \<noteq> [] \<and> length row > 1)
             (map split_row (potential_table_lines page_text))) = head # body"
    and "DataFrame (map (map Some) body) (map Some head) = Inr df0"
    and "df = df0 \<lparr> df_page := Some (page_num + 1), df_table := Some 1 \<rparr>"
proof -
  let ?rows = "filter (\<lambda>row. row \<noteq> [] \<and> length row > 1)
                 (map split_row (potential_table_lines page_text))"
  let ?padded = "map (pad_row (max_cols ?rows) []) ?rows"
  from assms have r: "(case ?padded of
              [] \<Rightarrow> None
            | head # body \<Rightarrow>
               (case DataFrame (map (map Some) body) (map Some head) of
                  Inl e \<Rightarrow> None
                | Inr df \<Rightarrow> Some (df \<lparr> df_page := Some (page_num + 1), df_table := Some 1 \<rparr>)))
           = Some df"
    by (simp add: text_table_def Let_def split: if_splits)
  then obtain head body where p: "?padded = head # body"
    by (cases ?padded) simp_all
  with r obtain df0 where d1: "DataFrame (map (map Some) body) (map Some head) = Inr df0"
    and d2: "df = df0 \<lparr> df_page := Some (page_num + 1), df_table := Some 1 \<rparr>"
    by (cases "DataFrame (map (map Some) body) (map Some head)") simp_all
  show thesis by (rule that [OF p d1 d2])
qed

lemma text_table_rows:
  assumes "text_table page_num page_text = Some df"
  shows "rows_match_header df"
    and "list_all (\<lambda>row. \<exists>line \<in> set (potential_table_lines page_text).
             length (split_row line) \<le> length (df_columns df)
             \<and> row = map Some (split_row line)
                 @ replicate (length (df_columns df) - length (split_row line)) (Some []))
           (map fst (df_columns df) # df_rows df)"
proof -
  let ?lines = "potential_table_lines page_text"
  let ?rows = "filter (\<lambda>row. row \<noteq> [] \<and> length row > 1) (map split_row ?lines)"
  let ?w = "max_cols ?rows"
  from assms obtain head body df0 where
    padded: "map (pad_row ?w []) ?rows = head # body"
    and df0: "DataFrame (map (map Some) body) (map Some head) = Inr df0"
    and df: "df = df0 \<lparr> df_page := Some (page_num + 1), df_table := Some 1 \<rparr>"
    by (rule text_table_Some)
  have in_rows: "\<And>p. p \<in> set (head # body) \<Longrightarrow>
      \<exists>line \<in> set ?lines. length (split_row line) \<le> ?w \<and> p = pad_row ?w [] (split_row line)"
  proof -
    fix p assume "p \<in> set (head # body)"
    with padded have "p \<in> set (map (pad_row ?w []) ?rows)" by simp
    then obtain r where r: "r \<in> set ?rows" and p: "p = pad_row ?w [] r" by auto
    from r obtain line where "line \<in> set ?lines" "r = split_row line" by auto
    with r p max_cols_ge [OF r]
    show "\<exists>line \<in> set ?lines. length (split_row line) \<le> ?w \<and> p = pad_row ?w [] (split_row line)"
      by auto
  qed
  have len: "\<And>p. p \<in> set (head # body) \<Longrightarrow> length p = ?w"
  proof -
    fix p assume "p \<in> set (head # body)"
    from in_rows [OF this] obtain line where "length (split_row line) \<le> ?w"
      "p = pad_row ?w [] (split_row line)" by blast
    then show "length p = ?w" by (simp add: length_pad_row)
  qed
  have cols: "map fst (df_columns df) = map Some head"
    using DataFrame_shape(1) [OF df0] df by simp
  then have ncols: "length (df_columns df) = ?w"
    using len [of head] by (metis length_map list.set_intros(1))
  have rows: "df_rows df = map (map Some) body"
    using DataFrame_shape(2) [OF df0] df len
    by (auto simp: pad_row_def ncols [symmetric] cols intro!: map_idI)
  show "rows_match_header df"
    using rows ncols len by (auto simp: rows_match_header_def list_all_iff)
  show "list_all (\<lambda>row. \<exists>line \<in> set (potential_table_lines page_text).
             length (split_row line) \<le> length (df_columns df)
             \<and> row = map Some (split_row line)
                 @ replicate (length (df_columns df) - length (split_row line)) (Some []))
           (map fst (df_columns df) # df_rows df)"
    unfolding list_all_iff
  proof
    fix row assume "row \<in> set (map fst (df_columns df) # df_rows df)"
    with cols rows obtain p where p: "p \<in> set (head # body)" and row: "row = map Some p"
      by auto
    from in_rows [OF p] obtain line where "line \<in> set ?lines"
      "length (split_row line) \<le> ?w" "p = pad_row ?w [] (split_row line)" by blast
    with row ncols show "\<exists>line \<in> set (potential_table_lines page_text).
             length (split_row line) \<le> length (df_columns df)
             \<and> row = map Some (split_row line)
                 @ replicate (length (df_columns df) - length (split_row line)) (Some [])"
      by (auto simp: pad_row_def)
  qed
qed

lemma text_tables_match: "list_all rows_match_header (text_tables page_num texts)"
  by (induction texts arbitrary: page_num) (auto split: option.splits dest: text_table_rows(1))

lemma alternative_match:
  "list_all rows_match_header (fst (extract_tables_alternative parse pdf_bytes opens))"
  by (auto simp: extract_tables_alternative_def text_tables_match
      split: prod.splits sum.splits text_result.splits)

lemma extract_tables_match:
  assumes "extract_tables parse pdf_bytes rer opens = (Inr tables, n)"
  shows "list_all rows_match_header tables"
proof -
  from assms have body: "extract_tables_body parse pdf_bytes rer opens = (Inr tables, n)"
    by (auto simp: extract_tables_def split: sum.splits prod.splits)
  show ?thesis
  proof (cases "parse pdf_bytes")
    case (Inl e)
    with body show ?thesis by (simp add: extract_tables_body_def)
  next
    case (Inr pages)
    show ?thesis
    proof (cases "tables_loop pages None")
      case (Inl e)
      with body Inr show ?thesis by (simp add: extract_tables_body_def)
    next
      case loop: (Inr v)
      show ?thesis
      proof (cases v)
        case None
        with body Inr loop show ?thesis by (simp add: extract_tables_body_def)
      next
        case (Some ts)
        show ?thesis
        proof (cases "frames_loop rer (length pages - 1) 0 ts []")
          case (Inl e)
          with body Inr loop Some show ?thesis by (simp add: extract_tables_body_def)
        next
          case frames: (Inr all_tables)
          show ?thesis
          proof (cases "all_tables = []")
            case True
            with body Inr loop Some frames
            have "tables = fst (extract_tables_alternative parse pdf_bytes (opens + 1))"
              by (auto simp: extract_tables_body_def split: prod.splits)
            then show ?thesis by (simp only: alternative_match)
          next
            case False
            with body Inr loop Some frames have "tables = all_tables"
              by (auto simp: extract_tables_body_def)
            with frames_loop_match_all [OF frames] show ?thesis by simp
          qed
        qed
      qed
    qed
  qed
qed

text \<open>
  C2.  In every table \<open>extract_tables\<close> returns, from the detected tables or from the
  text, each row is as long as the header.  Short rows are filled with empty strings
  when the table is built: a row of a table built from a detected table is a raw row,
  cleaned cell by cell, followed by empty strings up to the length of the header; the
  header and the rows of a table built from the text are the cells of candidate lines,
  followed by empty strings up to the length of the header.
\<close>

theorem tables_rows_match_header:
  "(extract_tables parse pdf_bytes remove_empty_rows opens = (Inr tables, n)
      \<longrightarrow> list_all rows_match_header tables)
   \<and> (table_frame remove_empty_rows page_num table_num (first # rest) = Inr (Some df)
      \<longrightarrow> list_all (\<lambda>row. \<exists>raw \<in> set rest. length raw \<le> length (df_columns df)
             \<and> row = map clean_cell raw
                 @ replicate (length (df_columns df) - length raw) (Some [])) (df_rows df))
   \<and> (text_table page_num page_text = Some df'
      \<longrightarrow> list_all (\<lambda>row. \<exists>line \<in> set (potential_table_lines page_text).
             length (split_row line) \<le> length (df_columns df')
             \<and> row = map Some (split_row line)
                 @ replicate (length (df_columns df') - length (split_row line)) (Some []))
           (map fst (df_columns df') # df_rows df'))"
  using extract_tables_match table_frame_rows(2) text_table_rows(2) by blast

lemma short_row_table_frame: "table_frame True 0 0 short_row_table = Inr (Some short_row_frame)"
  by code_simp

lemma spaced_text_table: "text_table 0 spaced_text = Some spaced_frame"
  by code_simp

lemma short_row_extract:
  "extract_tables short_row_pdf small_pdf True 0 = (Inr [short_row_frame], 1)"
  by (simp add: extract_tables_def valid_small extract_tables_body_def short_row_pdf_def
      short_row_table_frame)

theorem tables_rows_match_header_witness:
  "extract_tables short_row_pdf small_pdf True 0 = (Inr [short_row_frame], 1)
   \<and> list_all rows_match_header [short_row_frame]
   \<and> table_frame True 0 0 ([Some ''a'', Some ''b''] # [[Some ''1''], [Some ''2'', Some ''3'']])
       = Inr (Some short_row_frame)
   \<and> df_rows short_row_frame
       = [map clean_cell [Some ''1''] @ replicate 1 (Some []),
          map clean_cell [Some ''2'', Some ''3'']]
   \<and> text_table 0 spaced_text = Some spaced_frame
   \<and> map fst (df_columns spaced_frame) # df_rows spaced_frame
       = [map Some (split_row ''name  age  city''),
          map Some (split_row ''bob  42'') @ replicate 1 (Some [])]"
proof -
  have frame: "table_frame True 0 0 ([Some ''a'', Some ''b''] # [[Some ''1''], [Some ''2'', Some ''3'']])
                 = Inr (Some short_row_frame)"
    using short_row_table_frame by (simp add: short_row_table_def)
  from tables_rows_match_header
    [of short_row_pdf small_pdf True 0 "[short_row_frame]" 1 0 0
        "[Some ''a'', Some ''b'']" "[[Some ''1''], [Some ''2'', Some ''3'']]" short_row_frame
        spaced_text spaced_frame]
    short_row_extract frame spaced_text_table
  have "list_all rows_match_header [short_row_frame]" by blast
  moreover have "df_rows short_row_frame
       = [map clean_cell [Some ''1''] @ replicate 1 (Some []),
          map clean_cell [Some ''2'', Some ''3'']]"
    by code_simp
  moreover have "map fst (df_columns spaced_frame) # df_rows spaced_frame
       = [map Some (split_row ''name  age  city''),
          map Some (split_row ''bob  42'') @ replicate 1 (Some [])]"
    by code_simp
  ultimately show ?thesis
    using short_row_extract frame spaced_text_table by simp
qed

subsection \<open>Validation before parsing\<close>





subsection \<open>The sheets of an export without content\<close>

lemma put_title: "sheet_title (put pos v ws) = sheet_title ws"
  by (simp add: put_def)









subsection \<open>The export always gives a workbook\<close>




subsection \<open>Sanitizing twice\<close>

lemma first_pass:
  "sanitize_text ''a@b.cc1234567890'' True False = ''a@b.cc[PHONE_REDACTED]''"
  by code_simp

lemma second_pass:
  "sanitize_text ''a@b.cc[PHONE_REDACTED]'' True False = ''[EMAIL_REDACTED][PHONE_REDACTED]''"
  by code_simp

text \<open>
  C6, as the specification states it, fails.  In \<open>a@b.cc1234567890\<close> the address is no
  match while a digit follows it: \<open>\b\<close> fails between \<open>c\<close> and \<open>1\<close>.  The first pass
  replaces the ten digits with the phone token; behind the address there is now a
  bracket, and the second pass replaces the address.
\<close>

theorem sanitize_twice_counterexample:
  "sanitize_text (sanitize_text ''a@b.cc1234567890'' True False) True False
     \<noteq> sanitize_text ''a@b.cc1234567890'' True False"
  by (simp add: first_pass second_pass)

lemma mark_atom_char: "mark_atom a \<Longrightarrow> in_atom a c \<Longrightarrow> isdigit c \<or> c = CHR ''@''"
  by (cases a) auto

lemma marked_class: "list_all mark_atom k \<Longrightarrow> in_cls k c \<Longrightarrow> isdigit c \<or> c = CHR ''@''"
  by (auto simp: in_cls_def list_all_iff list_ex_iff dest: mark_atom_char)

lemma rep_states_suffix:
  "(p', s') \<in> set (rep_states k lo hi i p s) \<Longrightarrow> \<exists>pre. s = pre @ s'"
proof (induction s arbitrary: i p)
  case Nil
  then show ?case by (auto split: if_splits)
next
  case (Cons c cs)
  from Cons.prems consider
    (more) "(p', s') \<in> set (rep_states k lo hi (i + 1) (is_word c) cs)"
    | (stop) "s' = c # cs"
    by (auto split: if_splits)
  then show ?case
  proof cases
    case more
    from Cons.IH [OF this] obtain pre where "cs = pre @ s'" by blast
    then have "c # cs = (c # pre) @ s'" by simp
    then show ?thesis by blast
  next
    case stop
    then show ?thesis by simp
  qed
qed

lemma rmatch_suffix:
  "(p', s') \<in> set (rmatch r (p, s)) \<Longrightarrow> \<exists>pre. s = pre @ s'"
proof (induction r arbitrary: p s p' s')
  case Eps
  then show ?case by simp
next
  case (Cls k)
  then show ?case by (cases s) (auto split: if_splits)
next
  case WordB
  then show ?case by (auto split: if_splits)
next
  case (Seq a b)
  from Seq.prems obtain pm sm where
    m: "(pm, sm) \<in> set (rmatch a (p, s))" and e: "(p', s') \<in> set (rmatch b (pm, sm))"
    by auto
  from Seq.IH(1) [OF m] obtain pre1 where "s = pre1 @ sm" by blast
  moreover from Seq.IH(2) [OF e] obtain pre2 where "sm = pre2 @ s'" by blast
  ultimately have "s = (pre1 @ pre2) @ s'" by simp
  then show ?case by blast
next
  case (Alt a b)
  then show ?case by auto
next
  case (Opt a)
  then show ?case by auto
next
  case (Rep k lo hi)
  then show ?case by (auto dest: rep_states_suffix)
qed

lemma plain_suffix: "plain (pre @ s) \<Longrightarrow> plain s"
  by (simp add: plain_def)

lemma rmatch_plain: "needs_mark r \<Longrightarrow> plain s \<Longrightarrow> rmatch r (p, s) = []"
proof (induction r arbitrary: p s)
  case (Cls k)
  then show ?case
    by (cases s) (auto simp: plain_def dest: marked_class)
next
  case (Seq a b)
  show ?case
  proof (cases "needs_mark a")
    case True
    with Seq show ?thesis by simp
  next
    case False
    with Seq.prems have nb: "needs_mark b" by simp
    have "rmatch b st = []" if "st \<in> set (rmatch a (p, s))" for st
    proof -
      obtain pm sm where st: "st = (pm, sm)" by (cases st)
      with that rmatch_suffix obtain pre where "s = pre @ sm" by blast
      with Seq.prems(2) have "plain sm" by (auto dest: plain_suffix)
      with Seq.IH(2) [OF nb] st show ?thesis by simp
    qed
    then show ?thesis by simp
  qed
next
  case (Rep k lo hi)
  then show ?case
    by (cases s) (auto simp: plain_def dest: marked_class)
qed simp_all

lemma re_sub_plain: "needs_mark r \<Longrightarrow> plain s \<Longrightarrow> re_sub r repl p s = s"
proof (induction s arbitrary: p)
  case Nil
  then show ?case by (simp add: re_sub.simps rmatch_plain)
next
  case (Cons c cs)
  from Cons.prems have "plain cs" by (simp add: plain_def)
  with Cons show ?case
    by (simp add: re_sub.simps [of r repl p "c # cs"] rmatch_plain)
qed

lemma patterns_need_mark:
  "needs_mark email_pattern" "needs_mark phone_pattern" "needs_mark ssn_pattern"
  "needs_mark credit_card_pattern" "needs_mark chinese_id_pattern"
  "needs_mark id_number_pattern" "needs_mark numeric_sequences"
  by (simp_all add: email_pattern_def phone_pattern_def ssn_pattern_def credit_card_pattern_def
      chinese_id_pattern_def id_number_pattern_def numeric_sequences_def seqs_def Lit_def)

lemma sanitize_text_plain: "plain s \<Longrightarrow> sanitize_text s basic_sanitization redact_numbers = s"
  by (simp add: sanitize_text_def basic_substitutions_def sub_def re_sub_plain patterns_need_mark)

lemma placeholders_plain: "list_all plain placeholders"
  by (simp add: placeholders_def plain_def isdigit_def)

lemma digit_word: "isdigit c \<Longrightarrow> is_word c"
  by (auto simp: isdigit_def is_word_def Let_def)

lemma in_Dig: "in_cls [Dig] c = isdigit c"
  by (simp add: in_cls_def)

lemma at_end_simps: "at_end [] = True" "at_end (c # cs) = (\<not> is_word c)"
  by (simp_all add: at_end_def)

lemma rmatch_after_boundary:
  "rmatch (Seq WordB r) (p, s) = (if p = at_end s then rmatch r (p, s) else [])"
  by (cases s) (auto simp: at_end_def)

lemma rmatch_boundary:
  "rmatch (Seq WordB Eps) (p, s) = (if p = at_end s then [(p, s)] else [])"
  by (simp add: rmatch_after_boundary del: rmatch.simps(3,4))

lemma rmatch_after_rep:
  "rmatch (Seq (Rep k lo hi) r) (p, s) = concat (map (rmatch r) (rep_states k lo hi 0 p s))"
  by simp

lemma digits_then_boundary:
  "concat (map (rmatch (Seq WordB Eps)) (rep_states [Dig] 4 None i True s))
     = (if 4 \<le> i + length (takeWhile isdigit s) \<and> at_end (dropWhile isdigit s)
        then [(True, dropWhile isdigit s)] else [])"
proof (induction s arbitrary: i)
  case Nil
  show ?case by (simp add: rmatch_boundary at_end_simps del: rmatch.simps)
next
  case (Cons c cs)
  show ?case
  proof (cases "isdigit c")
    case True
    with Cons.IH [of "i + 1"] show ?thesis
      by (simp add: in_Dig digit_word rmatch_boundary at_end_simps del: rmatch.simps)
  next
    case False
    then show ?thesis
      by (auto simp: in_Dig rmatch_boundary at_end_simps simp del: rmatch.simps)
  qed
qed

lemma digits_then_boundary_start:
  "concat (map (rmatch (Seq WordB Eps)) (rep_states [Dig] 4 None 0 p s))
     = (if 4 \<le> length (takeWhile isdigit s) \<and> at_end (dropWhile isdigit s)
        then [(True, dropWhile isdigit s)] else [])"
proof (cases s)
  case Nil
  then show ?thesis by (simp del: rmatch.simps)
next
  case (Cons c cs)
  show ?thesis
  proof (cases "isdigit c")
    case True
    with Cons digits_then_boundary [of 1 cs] show ?thesis
      by (simp add: in_Dig digit_word del: rmatch.simps)
  next
    case False
    with Cons show ?thesis by (simp add: in_Dig del: rmatch.simps)
  qed
qed

lemma rmatch_numeric:
  "rmatch numeric_sequences (p, s)
     = (if \<not> p \<and> 4 \<le> length (takeWhile isdigit s) \<and> at_end (dropWhile isdigit s)
        then [(True, dropWhile isdigit s)] else [])"
proof -
  have run: "4 \<le> length (takeWhile isdigit s) \<Longrightarrow> \<not> at_end s"
    by (cases s) (auto simp: at_end_def digit_word split: if_splits)
  have "rmatch numeric_sequences (p, s)
      = (if p = at_end s
         then concat (map (rmatch (Seq WordB Eps)) (rep_states [Dig] 4 None 0 p s)) else [])"
    by (simp add: numeric_sequences_def seqs_def rmatch_after_boundary rmatch_after_rep
        del: rmatch.simps)
  then show ?thesis
    using run by (auto simp: digits_then_boundary_start simp del: rmatch.simps)
qed

lemma run_shorter:
  "4 \<le> length (takeWhile P s) \<Longrightarrow> length (dropWhile P s) < length s"
proof -
  have "length s = length (takeWhile P s) + length (dropWhile P s)"
    by (metis length_append takeWhile_dropWhile_id)
  then show "4 \<le> length (takeWhile P s) \<Longrightarrow> length (dropWhile P s) < length s"
    by linarith
qed

lemma redact_unfold:
  "redact_from p s =
     (if \<not> p \<and> 4 \<le> length (takeWhile isdigit s) \<and> at_end (dropWhile isdigit s)
      then NUM @ redact_from True (dropWhile isdigit s)
      else (case s of [] \<Rightarrow> [] | c # cs \<Rightarrow> c # redact_from (is_word c) cs))"
proof -
  have shorter: "4 \<le> length (takeWhile isdigit s) \<Longrightarrow> length (dropWhile isdigit s) < length s"
    by (rule run_shorter)
  show ?thesis
    unfolding redact_from_def
    by (subst re_sub.simps) (auto simp: rmatch_numeric shorter simp del: rmatch.simps)
qed

lemma redact_match: "redacts p s \<Longrightarrow> redact_from p s = NUM @ redact_from True (dropWhile isdigit s)"
  by (subst redact_unfold) (auto simp: redacts_def)

lemma redact_no_match:
  "\<not> redacts p s \<Longrightarrow> redact_from p s = (case s of [] \<Rightarrow> [] | c # cs \<Rightarrow> c # redact_from (is_word c) cs)"
  by (subst redact_unfold) (auto simp: redacts_def)

lemma redact_Nil: "redact_from p [] = []"
  by (subst redact_unfold) simp

lemma redact_nondigit: "\<not> isdigit c \<Longrightarrow> redact_from p (c # cs) = c # redact_from (is_word c) cs"
  by (subst redact_unfold) simp

lemma redact_inside: "redact_from True (c # cs) = c # redact_from (is_word c) cs"
  by (subst redact_unfold) simp

lemma redact_token: "redact_from p (NUM @ s) = NUM @ redact_from False s"
  by (simp add: NUM_def redact_nondigit isdigit_def is_word_def)

lemma run_kept:
  "takeWhile isdigit (redact_from True s) = takeWhile isdigit s
   \<and> at_end (dropWhile isdigit (redact_from True s)) = at_end (dropWhile isdigit s)"
proof (induction s)
  case Nil
  show ?case by (simp add: redact_Nil)
next
  case (Cons c cs)
  then show ?case
    by (simp add: redact_inside digit_word at_end_simps)
qed

lemma redact_twice:
  "p = q \<or> at_end s \<Longrightarrow> redact_from q (redact_from p s) = redact_from p s"
proof (induction "length s" arbitrary: p q s rule: less_induct)
  case less
  show ?case
  proof (cases "redacts p s")
    case True
    let ?t = "dropWhile isdigit s"
    from True have first: "redact_from p s = NUM @ redact_from True ?t"
      by (rule redact_match)
    from True have "length ?t < length s"
      by (simp add: redacts_def run_shorter)
    moreover from True have "True = False \<or> at_end ?t" by (simp add: redacts_def)
    ultimately have "redact_from False (redact_from True ?t) = redact_from True ?t"
      by (rule less.hyps)
    with first show ?thesis by (simp add: redact_token)
  next
    case False
    show ?thesis
    proof (cases s)
      case Nil
      then show ?thesis by (simp add: redact_Nil)
    next
      case (Cons c cs)
      with redact_no_match [OF False] have first: "redact_from p s = c # redact_from (is_word c) cs"
        by simp
      have ih: "redact_from (is_word c) (redact_from (is_word c) cs) = redact_from (is_word c) cs"
        using less.hyps [of cs "is_word c" "is_word c"] Cons by simp
      have no_match: "\<not> redacts q (c # redact_from (is_word c) cs)"
      proof (cases "isdigit c")
        case nd: False
        then show ?thesis by (simp add: redacts_def)
      next
        case True
        then have "\<not> at_end s" using Cons by (simp add: at_end_simps digit_word)
        with less.prems have "p = q" by simp
        with False Cons True run_kept [of cs] show ?thesis
          by (simp add: digit_word redacts_def)
      qed
      from redact_no_match [OF no_match]
      have "redact_from q (c # redact_from (is_word c) cs) = c # redact_from (is_word c) (redact_from (is_word c) cs)"
        by simp
      with first ih show ?thesis by simp
    qed
  qed
qed

lemma sanitize_redact: "sanitize_text s False True = redact_from False s"
  by (simp add: sanitize_text_def sub_def redact_from_def NUM_def redact_Nil [unfolded redact_from_def NUM_def])

lemma sanitize_twice_basic_off:
  "sanitize_text (sanitize_text s False r) False r = sanitize_text s False r"
proof (cases r)
  case True
  then show ?thesis by (simp add: sanitize_redact redact_twice)
next
  case False
  then show ?thesis by (simp add: sanitize_text_def)
qed

text \<open>
  C6, amended.  With basic sanitization off, sanitizing twice is sanitizing once, with
  the redaction of numbers on or off.  For every combination of the flags a text
  without a decimal digit and without \<open>@\<close> is returned as it is, and each of the six
  placeholder tokens is such a text: no pattern matches a token.
\<close>

theorem sanitize_twice_amended:
  "sanitize_text (sanitize_text s False redact_numbers) False redact_numbers
     = sanitize_text s False redact_numbers
   \<and> (plain t \<longrightarrow> sanitize_text t basic_sanitization redact_numbers = t)
   \<and> list_all plain placeholders"
  by (simp add: sanitize_twice_basic_off sanitize_text_plain placeholders_plain)

theorem sanitize_twice_amended_witness:
  "sanitize_text (sanitize_text ''call 12345'' False True) False True
     = sanitize_text ''call 12345'' False True
   \<and> plain ''[EMAIL_REDACTED]''
   \<and> sanitize_text ''[EMAIL_REDACTED]'' True True = ''[EMAIL_REDACTED]''"
proof -
  have p: "plain ''[EMAIL_REDACTED]''"
    by (simp add: plain_def isdigit_def)
  from sanitize_twice_amended [of "''call 12345''" True "''[EMAIL_REDACTED]''" True] p
  show ?thesis by simp
qed

subsection \<open>Merging the lines of a page\<close>

lemma merge_step_blank:
  "strip raw = [] \<Longrightarrow>
     merge_step (m, cur) raw = (if cur \<noteq> [] then (m @ [cur], []) else (m, cur))"
  by (simp add: merge_step_def)

lemma merge_step_join:
  "strip raw = a # as \<Longrightarrow> cur \<noteq> [] \<Longrightarrow> \<not> amended_break cur a \<Longrightarrow>
     merge_step (m, cur) raw = (m, cur @ [SP] @ a # as)"
  by (simp add: merge_step_def amended_break_def)

lemma merge_step_new:
  "strip raw = a # as \<Longrightarrow> cur = [] \<or> amended_break cur a \<Longrightarrow>
     merge_step (m, cur) raw = ((if cur \<noteq> [] then m @ [cur] else m), a # as)"
  by (auto simp: merge_step_def amended_break_def)

lemma foldl_merge_step:
  "foldl merge_step (merged, cur) lines = (ms, c) \<Longrightarrow>
     (if c \<noteq> [] then ms @ [c] else ms) = merged @ paragraphs amended_break cur lines"
proof (induction lines arbitrary: merged cur)
  case Nil
  then show ?case by auto
next
  case (Cons raw lines)
  from Cons.prems have run: "foldl merge_step (merge_step (merged, cur) raw) lines = (ms, c)"
    by simp
  show ?case
  proof (cases "strip raw")
    case Nil
    show ?thesis
    proof (cases "cur = []")
      case True
      with run Nil have "foldl merge_step (merged, []) lines = (ms, c)"
        by (simp add: merge_step_blank)
      from Cons.IH [OF this] True Nil show ?thesis by simp
    next
      case False
      with run Nil have "foldl merge_step (merged @ [cur], []) lines = (ms, c)"
        by (simp add: merge_step_blank)
      from Cons.IH [OF this] False Nil show ?thesis by simp
    qed
  next
    case (Cons a as)
    show ?thesis
    proof (cases "cur = []")
      case True
      with run Cons have "foldl merge_step (merged, a # as) lines = (ms, c)"
        by (simp add: merge_step_new)
      from Cons.IH [OF this] True Cons show ?thesis by simp
    next
      case False
      show ?thesis
      proof (cases "amended_break cur a")
        case True
        with run Cons False have "foldl merge_step (merged @ [cur], a # as) lines = (ms, c)"
          by (simp add: merge_step_new)
        from Cons.IH [OF this] True False Cons show ?thesis by simp
      next
        case nb: False
        with run Cons False have "foldl merge_step (merged, cur @ [SP] @ a # as) lines = (ms, c)"
          by (simp add: merge_step_join)
        from Cons.IH [OF this] nb False Cons show ?thesis by simp
      qed
    qed
  qed
qed

lemma merge_lines_paragraphs: "merge_lines lines = paragraphs amended_break [] lines"
proof -
  obtain ms c where r: "foldl merge_step ([], []) lines = (ms, c)"
    by (cases "foldl merge_step ([], []) lines")
  from foldl_merge_step [OF r] show ?thesis
    by (auto simp: merge_lines_def r Let_def split: if_splits)
qed

text \<open>
  C7, amended.  With block merging on, the text of a page is split into lines, and the
  lines are merged by the rule on paragraphs: a blank line ends the open paragraph; a
  line that is not blank joins it unless the paragraph has 100 characters or more
  already, or the line starts with an uppercase letter (\<open>str.isupper\<close>, which also holds
  of capitals outside ASCII); the paragraphs are joined with newlines.
\<close>

theorem merge_text_blocks_paragraphs:
  "merge_text_blocks text = join [NL] (paragraphs amended_break [] (split_on NL text))"
  by (simp add: merge_text_blocks_def merge_lines_paragraphs)

lemma strip_hundred: "strip hundred = hundred"
  by (simp add: hundred_def strip_def isspace_def)

lemma strip_b: "strip ''b'' = ''b''"
  by (simp add: strip_def isspace_def)

lemma split_on_absent: "c \<notin> set xs \<Longrightarrow> split_on c xs = [xs]"
  by (induction xs) auto

lemma split_on_first: "c \<notin> set xs \<Longrightarrow> split_on c (xs @ c # ys) = xs # split_on c ys"
  by (induction xs) auto

lemma hundred_facts: "NL \<notin> set hundred" "length hundred = 100" "hundred \<noteq> []"
  by (auto simp: hundred_def NL_def)

lemma split_long_line_text: "split_on NL long_line_text = [hundred, ''b'']"
  using split_on_first [of NL hundred "''b''"] hundred_facts(1)
  by (simp add: split_on_absent NL_def long_line_text_def)

lemma paragraphs_start:
  "strip raw \<noteq> [] \<Longrightarrow> paragraphs brk [] (raw # rest) = paragraphs brk (strip raw) rest"
  by (cases "strip raw") auto

lemma paragraphs_next:
  "strip raw = c # cs \<Longrightarrow> p \<noteq> [] \<Longrightarrow>
     paragraphs brk p (raw # rest) =
       (if brk p c then p # paragraphs brk (c # cs) rest
        else paragraphs brk (p @ [SP] @ c # cs) rest)"
  by simp

lemma long_line_merged: "merge_text_blocks long_line_text = hundred @ [NL] @ ''b''"
  by (simp add: merge_text_blocks_def merge_lines_paragraphs split_long_line_text strip_hundred
      strip_b amended_break_def hundred_facts paragraphs_start paragraphs_next
      del: paragraphs.simps(2))

lemma long_line_claimed: "claimed_merge long_line_text = hundred @ [SP] @ ''b''"
  by (simp add: claimed_merge_def split_long_line_text strip_hundred strip_b claimed_break_def
      isupper_ascii_def hundred_facts paragraphs_start paragraphs_next
      del: paragraphs.simps(2))

lemma accent_merged: "merge_text_blocks accent_text = accent_text"
  by (simp add: merge_text_blocks_def merge_lines_paragraphs accent_text_def NL_def strip_def
      isspace_def amended_break_def isupper_def)

lemma accent_claimed: "claimed_merge accent_text = ''a'' @ [SP] @ [CHR 0xC9] @ ''cole''"
  by (simp add: claimed_merge_def accent_text_def NL_def strip_def isspace_def claimed_break_def
      isupper_ascii_def)

text \<open>
  C7, as the specification states it, fails twice.  A paragraph of exactly 100
  characters does not exceed 100, and the code does not merge the next line into it.
  A line that starts with the capital E with an acute accent (code point 201) does not
  start with an ASCII capital, and the code does not merge it.
\<close>

theorem merge_rule_counterexample:
  "merge_text_blocks long_line_text = hundred @ [NL] @ ''b''
   \<and> claimed_merge long_line_text = hundred @ [SP] @ ''b''
   \<and> merge_text_blocks long_line_text \<noteq> claimed_merge long_line_text
   \<and> merge_text_blocks accent_text = ''a'' @ [NL] @ [CHR 0xC9] @ ''cole''
   \<and> claimed_merge accent_text = ''a'' @ [SP] @ [CHR 0xC9] @ ''cole''
   \<and> merge_text_blocks accent_text \<noteq> claimed_merge accent_text"
  by (simp add: long_line_merged long_line_claimed accent_merged accent_claimed)
     (simp add: accent_text_def NL_def SP_def)

subsection \<open>Lines with commas in the fallback\<close>

lemma comma_row: "split_row ''name, age'' = [''name, age'']"
  by code_simp

lemma comma_text_table: "text_table 0 comma_text = None"
  by code_simp

lemma comma_text_nonempty: "comma_text \<noteq> []"
  by (simp add: comma_text_def)

text \<open>
  C8.  A line with a comma and neither a tab nor a pipe should be split at its commas.
  The code counts the comma among the hints that make a line a candidate, and then has
  no branch that splits at it: the line \<open>name, age\<close> stays one cell, its row is dropped,
  and a page of two such lines gives no table.
\<close>

theorem comma_lines_not_split:
  "split_row ''name, age'' = [''name, age'']
   \<and> extract_tables comma_pdf small_pdf True 0 = (Inr [], 2)"
  by (simp add: comma_row comma_text_table comma_text_nonempty extract_tables_def valid_small
      extract_tables_body_def comma_pdf_def page_of_text_def extract_tables_alternative_def
      extract_text_def extract_text_body_def clean_page_text_def)

subsection \<open>The sanitizer with both flags off\<close>

text \<open>
  C9.  With basic sanitization and the redaction of numbers both off, \<open>sanitize_text\<close>
  returns every string as it is.
\<close>

theorem sanitize_text_flags_off: "sanitize_text s False False = s"
  by (simp add: sanitize_text_def)

subsection \<open>The argument of sanitize\_dataframe\<close>

lemma apply_column_frame:
  "length (apply_column f j h r) = length h"
  "i \<noteq> r \<Longrightarrow> apply_column f j h r ! i = h ! i"
  by (simp_all add: apply_column_def)

lemma sanitize_columns_frame:
  "length (fst (sanitize_columns cols basic_sanitization redact_numbers h r)) = length h
   \<and> (\<forall>i. i \<noteq> r \<longrightarrow> fst (sanitize_columns cols basic_sanitization redact_numbers h r) ! i = h ! i)"
proof (induction cols basic_sanitization redact_numbers h r rule: sanitize_columns.induct)
  case (1 basic_sanitization redact_numbers h r)
  show ?case by simp
next
  case (2 j label dt cols basic_sanitization redact_numbers h r)
  then show ?case
    by (auto simp: apply_column_frame)
qed

text \<open>
  C10.  \<open>sanitize_dataframe\<close> leaves its argument as it was: the store after the call
  holds every object it held before, unchanged (the frame at the argument's address
  with its labels, its cells and its shape), and new objects only behind them.
\<close>

theorem sanitize_dataframe_keeps_argument:
  assumes "r < length h"
  shows "length h \<le> length (fst (sanitize_dataframe h (Some r) basic_sanitization redact_numbers))
     \<and> take (length h) (fst (sanitize_dataframe h (Some r) basic_sanitization redact_numbers)) = h
     \<and> fst (sanitize_dataframe h (Some r) basic_sanitization redact_numbers) ! r = h ! r"
proof (cases "df_empty (h ! r)")
  case True
  then show ?thesis by (simp add: sanitize_dataframe_def)
next
  case False
  define h1 where "h1 = h @ [h ! r]"
  define cols where "cols = df_columns (h1 ! length h)"
  define h2 where
    "h2 = fst (sanitize_columns (zip [0..<length cols] cols) basic_sanitization redact_numbers h1 (length h))"
  have res: "fst (sanitize_dataframe h (Some r) basic_sanitization redact_numbers) = h2"
    using False
    by (simp add: sanitize_dataframe_def copy_frame_def Let_def h1_def cols_def h2_def
        split: prod.splits option.splits)
  from sanitize_columns_frame [of "zip [0..<length cols] cols" basic_sanitization redact_numbers h1 "length h"]
  have len: "length h2 = length h + 1"
    and same: "\<And>i. i < length h \<Longrightarrow> h2 ! i = h ! i"
    by (auto simp: nth_append h2_def h1_def)
  have "take (length h) h2 = h"
    by (rule nth_equalityI) (simp_all add: len same)
  with res len same [OF assms] show ?thesis by simp
qed

lemma example_result:
  "sanitize_dataframe [example_frame] (Some 0) True False
     = ([example_frame, example_frame \<lparr> df_rows := [[Some ''[EMAIL_REDACTED]'']] \<rparr>], Inr (Some 1))"
  by code_simp

theorem sanitize_dataframe_keeps_argument_witness:
  "sanitize_dataframe [example_frame] (Some 0) True False
     = ([example_frame, example_frame \<lparr> df_rows := [[Some ''[EMAIL_REDACTED]'']] \<rparr>], Inr (Some 1))
   \<and> fst (sanitize_dataframe [example_frame] (Some 0) True False) ! 0 = [example_frame] ! 0"
proof -
  have "(0::nat) < length [example_frame]" by simp
  from sanitize_dataframe_keeps_argument [OF this, of True False] example_result
  show ?thesis by simp
qed

subsection \<open>Further properties\<close>

lemma apply_column_shape:
  assumes "i < length h"
  shows "df_columns (apply_column f j h r ! i) = df_columns (h ! i)"
    and "map length (df_rows (apply_column f j h r ! i)) = map length (df_rows (h ! i))"
    and "df_page (apply_column f j h r ! i) = df_page (h ! i)"
    and "df_table (apply_column f j h r ! i) = df_table (h ! i)"
  using assms
  by (cases "i = r"; simp add: apply_column_def comp_def)+

lemma sanitize_columns_shape:
  "i < length h \<Longrightarrow>
     df_columns (fst (sanitize_columns cols basic_sanitization redact_numbers h r) ! i)
       = df_columns (h ! i)
   \<and> map length (df_rows (fst (sanitize_columns cols basic_sanitization redact_numbers h r) ! i))
       = map length (df_rows (h ! i))
   \<and> df_page (fst (sanitize_columns cols basic_sanitization redact_numbers h r) ! i)
       = df_page (h ! i)
   \<and> df_table (fst (sanitize_columns cols basic_sanitization redact_numbers h r) ! i)
       = df_table (h ! i)"
proof (induction cols basic_sanitization redact_numbers h r rule: sanitize_columns.induct)
  case (1 basic redact h r)
  show ?case by simp
next
  case (2 j label dt cols basic redact h r)
  then show ?case
    by (auto simp: apply_column_shape apply_column_frame(1))
qed

text \<open>
  The frame \<open>sanitize_dataframe\<close> returns has the shape of its argument: the same
  column labels and dtypes, as many rows, each of the same length, and the same
  \<open>attrs\<close>.
\<close>

theorem sanitize_dataframe_same_shape:
  assumes "r < length h"
    and "sanitize_dataframe h (Some r) basic_sanitization redact_numbers = (h', Inr (Some r'))"
  shows "df_columns (h' ! r') = df_columns (h ! r)
     \<and> map length (df_rows (h' ! r')) = map length (df_rows (h ! r))
     \<and> df_page (h' ! r') = df_page (h ! r) \<and> df_table (h' ! r') = df_table (h ! r)"
proof (cases "df_empty (h ! r)")
  case True
  with assms(2) show ?thesis by (simp add: sanitize_dataframe_def)
next
  case False
  define h1 where "h1 = h @ [h ! r]"
  define cols where "cols = df_columns (h1 ! length h)"
  have res: "h' = fst (sanitize_columns (zip [0..<length cols] cols)
                        basic_sanitization redact_numbers h1 (length h))"
    and r': "r' = length h"
    using False assms(2)
    by (auto simp: sanitize_dataframe_def copy_frame_def Let_def h1_def cols_def
        split: prod.splits option.splits)
  have "length h < length h1" by (simp add: h1_def)
  from sanitize_columns_shape [OF this, of "zip [0..<length cols] cols"
      basic_sanitization redact_numbers "length h"]
  show ?thesis
    by (simp add: res r' h1_def)
qed

theorem sanitize_dataframe_same_shape_witness:
  "sanitize_dataframe [example_frame] (Some 0) True False
     = ([example_frame, example_frame \<lparr> df_rows := [[Some ''[EMAIL_REDACTED]'']] \<rparr>],
        Inr (Some 1))
   \<and> df_columns ([example_frame, example_frame \<lparr> df_rows := [[Some ''[EMAIL_REDACTED]'']] \<rparr>] ! 1)
       = df_columns ([example_frame] ! 0)
   \<and> map length (df_rows ([example_frame,
           example_frame \<lparr> df_rows := [[Some ''[EMAIL_REDACTED]'']] \<rparr>] ! 1))
       = map length (df_rows ([example_frame] ! 0))"
proof -
  have "(0::nat) < length [example_frame]" by simp
  from sanitize_dataframe_same_shape [OF this example_result] example_result
  show ?thesis by simp
qed

lemma put_row_title: "sheet_title (put_row r c vs ws) = sheet_title ws"
  by (induction vs arbitrary: c ws) (simp_all add: put_title)

lemma put_rows_title: "sheet_title (put_rows r rows ws) = sheet_title ws"
  by (induction rows arbitrary: r ws) (simp_all add: put_row_title)

text \<open>
  The title of the sheet of a table has at most 31 characters and none of the
  characters \<open>\ / * ? : [ ]\<close>.
\<close>

theorem table_sheet_title_valid:
  assumes "table_sheet i (PyFrame f) filename = Inr ws"
  shows "length (sheet_title ws) \<le> 31
     \<and> list_all (\<lambda>c. c \<notin> set [CHR 0x5C, CHR ''/'', CHR ''*'', CHR ''?'', CHR '':'', CHR ''['', CHR '']''])
          (sheet_title ws)"
proof -
  from assms obtain name where "sheet_title ws = valid_sheet_name name"
    by (auto simp: table_sheet_def Let_def put_rows_title put_title new_sheet_def
        split: option.splits)
  moreover have "length (valid_sheet_name name) \<le> 31"
    by (simp add: valid_sheet_name_def)
  moreover have "list_all (\<lambda>c. c \<notin> set [CHR 0x5C, CHR ''/'', CHR ''*'', CHR ''?'', CHR '':'', CHR ''['', CHR '']''])
          (valid_sheet_name name)"
    unfolding valid_sheet_name_def list_all_iff
    by (auto dest!: in_set_takeD)
  ultimately show ?thesis by simp
qed

lemma example_sheet:
  "map_sum id sheet_title (table_sheet 0 (PyFrame example_frame) ''f.pdf'')
     = Inr ''Table_1_Page_1''"
  by (simp add: table_sheet_def example_frame_def Let_def put_rows_title put_title new_sheet_def
      valid_sheet_name_def show_nat.simps)

theorem table_sheet_title_valid_witness:
  "\<exists>ws. table_sheet 0 (PyFrame example_frame) ''f.pdf'' = Inr ws
      \<and> sheet_title ws = ''Table_1_Page_1'' \<and> length (sheet_title ws) \<le> 31"
proof -
  from example_sheet obtain ws where ws: "table_sheet 0 (PyFrame example_frame) ''f.pdf'' = Inr ws"
    and t: "sheet_title ws = ''Table_1_Page_1''"
    by (cases "table_sheet 0 (PyFrame example_frame) ''f.pdf''") auto
  from table_sheet_title_valid [OF ws] ws t show ?thesis by simp
qed

text \<open>
  With basic sanitization on, \<open>contact a@b.com now\<close> becomes
  \<open>contact [EMAIL_REDACTED] now\<close>.
\<close>

theorem email_is_redacted:
  "sanitize_text ''contact a@b.com now'' True False = ''contact [EMAIL_REDACTED] now''"
  by code_simp

end
